theory Spec2Isabelle
  imports Complex_Main "HOL-Library.Log_Nat"
begin

section \<open>Python numbers used by \<^verbatim>\<open>app.py\<close>\<close>

text \<open>
  The script computes with Python's unbounded \<^verbatim>\<open>int\<close> (here \<^typ>\<open>int\<close>) and with
  \<^verbatim>\<open>float\<close>, an IEEE 754 binary64 number. A finite float is represented by the
  rational number it denotes; the two infinities and NaN are separate values. The sign
  of zero is not represented: none of the operations below can produce a negative zero
  from the operands the script gives them.
\<close>

datatype double = Finite rat | PosInf | NegInf | NaN

datatype error = OverflowError | NotFittedError | IndexError | PredictionError

text \<open>Rounding a rational to the nearest integer, ties to the even one.\<close>

definition round_half_even :: "rat \<Rightarrow> int" where
  "round_half_even y =
     (let f = \<lfloor>y\<rfloor>; d = y - of_int f
      in if d < 1 / 2 then f
         else if 1 / 2 < d then f + 1
         else if even f then f else f + 1)"

text \<open>
  \<open>floor_log2 q\<close> is the binary exponent of a positive rational: the \<open>k\<close> with
  \<open>2 ^ k \<le> q < 2 ^ (k + 1)\<close>. The bit lengths of numerator and denominator fix it up
  to one, and a comparison decides.
\<close>

definition floor_log2 :: "rat \<Rightarrow> int" where
  "floor_log2 q =
     (let k = bitlen (fst (quotient_of q)) - bitlen (snd (quotient_of q))
      in if 2 powi k \<le> q then k else k - 1)"

text \<open>
  The exponent of the last place of binary64 at \<open>q\<close>: 53 significant bits, and never
  below the subnormal spacing \<open>2 ^ -1074\<close>.
\<close>

definition ulp_exp :: "rat \<Rightarrow> int" where
  "ulp_exp q = max (floor_log2 \<bar>q\<bar> - 52) (- 1074)"

definition round_nearest :: "rat \<Rightarrow> rat" where
  "round_nearest q =
     (if q = 0 then 0
      else of_int (round_half_even (q / 2 powi ulp_exp q)) * 2 powi ulp_exp q)"

text \<open>A rounded magnitude of \<open>2 ^ 1024\<close> or more is beyond the largest finite float.\<close>

definition too_large :: "rat \<Rightarrow> bool" where
  "too_large r = (2 ^ 1024 \<le> \<bar>r\<bar>)"

text \<open>
  \<^verbatim>\<open>float(n)\<close>, also the implicit conversion of an \<^verbatim>\<open>int\<close> operand of a float
  operation and of an \<^verbatim>\<open>int\<close> element of \<^verbatim>\<open>np.array(..., dtype=float)\<close>: correctly
  rounded, \<^verbatim>\<open>OverflowError\<close> when the integer is too large for a float.
\<close>

definition int_to_float :: "int \<Rightarrow> error + double" where
  "int_to_float n =
     (let r = round_nearest (of_int n)
      in if too_large r then Inl OverflowError else Inr (Finite r))"

text \<open>
  \<^verbatim>\<open>a / 60\<close> on two \<^verbatim>\<open>int\<close>s: the correctly rounded quotient, \<^verbatim>\<open>OverflowError\<close> when
  it is too large for a float. (The divisor of the script is the constant 60, so the
  \<^verbatim>\<open>ZeroDivisionError\<close> of true division has no branch here.)
\<close>

definition int_div_60 :: "int \<Rightarrow> error + double" where
  "int_div_60 a =
     (let r = round_nearest (of_int a / 60)
      in if too_large r then Inl OverflowError else Inr (Finite r))"

text \<open>
  \<^verbatim>\<open>x + y\<close> on two floats never raises: the sum of two finite floats is rounded, and
  becomes an infinity when it is too large.
\<close>

fun float_add :: "double \<Rightarrow> double \<Rightarrow> double" where
  "float_add (Finite a) (Finite b) =
     (let r = round_nearest (a + b)
      in if too_large r then (if 0 < r then PosInf else NegInf) else Finite r)"
| "float_add NaN _ = NaN"
| "float_add _ NaN = NaN"
| "float_add PosInf NegInf = NaN"
| "float_add NegInf PosInf = NaN"
| "float_add PosInf _ = PosInf"
| "float_add NegInf _ = NegInf"
| "float_add _ PosInf = PosInf"
| "float_add _ NegInf = NegInf"

section \<open>The inputs of a run\<close>

text \<open>
  The six widget values read by one run of the script. The widgets bound them
  (\<open>widget_range\<close> below); the lines that derive the features read plain variables and
  make no check of their own.
\<close>

record inputs =
  passenger_count :: int
  trip_distance :: double
  trip_duration :: int
  pickup_hour_12 :: int
  pickup_minute :: int
  am_pm :: string

text \<open>
  What the widgets can return: \<^verbatim>\<open>selectbox(options=[1..6])\<close>, \<^verbatim>\<open>slider(0.5, 50.0,
  step=0.5)\<close>, \<^verbatim>\<open>slider(2, 120)\<close>, \<^verbatim>\<open>selectbox(range(1, 13))\<close>, \<^verbatim>\<open>slider(0, 59)\<close> and
  \<^verbatim>\<open>selectbox(["AM", "PM"])\<close>.
\<close>

definition distance_steps :: "double list" where
  "distance_steps = map (\<lambda>k. Finite (of_nat k / 2)) [1 ..< 101]"

definition widget_range :: "inputs \<Rightarrow> bool" where
  "widget_range r =
     (1 \<le> passenger_count r \<and> passenger_count r \<le> 6 \<and>
      trip_distance r \<in> set distance_steps \<and>
      2 \<le> trip_duration r \<and> trip_duration r \<le> 120 \<and>
      1 \<le> pickup_hour_12 r \<and> pickup_hour_12 r \<le> 12 \<and>
      0 \<le> pickup_minute r \<and> pickup_minute r \<le> 59 \<and>
      (am_pm r = ''AM'' \<or> am_pm r = ''PM''))"

section \<open>Time conversion (lines 167 to 179)\<close>

definition pickup_hour_24 :: "string \<Rightarrow> int \<Rightarrow> int" where
  "pickup_hour_24 ap h12 =
     (if ap = ''AM'' then (if h12 = 12 then 0 else h12)
      else (if h12 = 12 then 12 else h12 + 12))"

text \<open>\<^verbatim>\<open>pickup_hour_24 + (pickup_minute / 60)\<close>: the quotient first, then the sum.\<close>

definition pickup_time :: "int \<Rightarrow> int \<Rightarrow> error + double" where
  "pickup_time h24 minute =
     (case int_div_60 minute of
        Inl e \<Rightarrow> Inl e
      | Inr d \<Rightarrow>
          (case int_to_float h24 of
             Inl e \<Rightarrow> Inl e
           | Inr x \<Rightarrow> Inr (float_add x d)))"

definition is_night :: "int \<Rightarrow> bool" where
  "is_night h24 = (h24 \<ge> 22 \<or> h24 \<le> 5)"

section \<open>The feature array (lines 199 to 203)\<close>

text \<open>
  \<^verbatim>\<open>np.array([[...]], dtype=float)\<close>: one row of five floats. The three \<^verbatim>\<open>int\<close>
  elements are converted; \<^verbatim>\<open>int(is_night)\<close> is 0 or 1.
\<close>

definition input_data ::
  "double \<Rightarrow> int \<Rightarrow> double \<Rightarrow> bool \<Rightarrow> int \<Rightarrow> error + double list list" where
  "input_data distance duration time night passengers =
     (case int_to_float duration of
        Inl e \<Rightarrow> Inl e
      | Inr du \<Rightarrow>
          (case int_to_float (if night then 1 else 0) of
             Inl e \<Rightarrow> Inl e
           | Inr ni \<Rightarrow>
               (case int_to_float passengers of
                  Inl e \<Rightarrow> Inl e
                | Inr pa \<Rightarrow> Inr [[distance, du, time, ni, pa]])))"

section \<open>One run of the script\<close>

text \<open>
  The model object is opaque: \<open>fitted\<close> is the verdict of scikit-learn's
  \<^verbatim>\<open>check_is_fitted\<close> on it, \<open>predict\<close> its \<^verbatim>\<open>predict\<close> method, which returns an
  array of fares or raises.
\<close>

record model =
  fitted :: bool
  predict :: "double list list \<Rightarrow> error + double list"

text \<open>The calls a run makes on the model, in order.\<close>

datatype event = CheckIsFitted | Predict "double list list"

text \<open>
  Lines 167 to 179 run on every pass of the script, whether or not the button was
  pressed: hour, fractional time, night flag.
\<close>

definition derive :: "inputs \<Rightarrow> error + int \<times> double \<times> bool" where
  "derive r =
     (let h24 = pickup_hour_24 (am_pm r) (pickup_hour_12 r)
      in case pickup_time h24 (pickup_minute r) of
           Inl e \<Rightarrow> Inl e
         | Inr t \<Rightarrow> Inr (h24, t, is_night h24))"

text \<open>The array the run would pass to the model: lines 167 to 203 without the model.\<close>

definition features :: "inputs \<Rightarrow> error + double list list" where
  "features r =
     (case derive r of
        Inl e \<Rightarrow> Inl e
      | Inr (h24, t, night) \<Rightarrow>
          input_data (trip_distance r) (trip_duration r) t night (passenger_count r))"

text \<open>
  The whole run: the events on the model and either an exception or the fare shown
  (\<open>None\<close> when the button was not pressed).
\<close>

definition run :: "model \<Rightarrow> inputs \<Rightarrow> bool \<Rightarrow> event list \<times> (error + double option)" where
  "run m r predict_clicked =
     (case derive r of
        Inl e \<Rightarrow> ([], Inl e)
      | Inr (h24, t, night) \<Rightarrow>
          if \<not> predict_clicked then ([], Inr None)
          else if \<not> fitted m then ([CheckIsFitted], Inl NotFittedError)
          else
            (case input_data (trip_distance r) (trip_duration r) t night (passenger_count r) of
               Inl e \<Rightarrow> ([CheckIsFitted], Inl e)
             | Inr x \<Rightarrow>
                 (case predict m x of
                    Inl e \<Rightarrow> ([CheckIsFitted, Predict x], Inl e)
                  | Inr [] \<Rightarrow> ([CheckIsFitted, Predict x], Inl IndexError)
                  | Inr (y # ys) \<Rightarrow> ([CheckIsFitted, Predict x], Inr (Some y)))))"

section \<open>Facts about the float model\<close>

subsection \<open>Binary exponent and rounding to an integer\<close>

lemma powi_less_imp_less:
  assumes "(2::rat) powi m < 2 powi n"
  shows "m < n"
proof (rule ccontr)
  assume "\<not> m < n"
  then have "n \<le> m" by simp
  then have "(2::rat) powi n \<le> 2 powi m" by (rule power_int_increasing) simp
  with assms show False by simp
qed

lemma bitlen_ge_one:
  assumes "0 < a"
  shows "1 \<le> bitlen a"
  using assms bitlen_eq_zero_iff [of a] bitlen_nonneg [of a] by linarith

lemma bitlen_powi_lower:
  assumes "0 < a"
  shows "2 powi (bitlen a - 1) \<le> (of_int a :: rat)"
proof -
  have "2 ^ nat (bitlen a - 1) \<le> a" using bitlen_bounds [OF assms] by simp
  then have "(of_int (2 ^ nat (bitlen a - 1)) :: rat) \<le> of_int a" by (simp only: of_int_le_iff)
  moreover have "0 \<le> bitlen a - 1" using bitlen_ge_one [OF assms] by simp
  ultimately show ?thesis by (simp add: power_int_nonneg_exp)
qed

lemma bitlen_powi_upper:
  assumes "0 < a"
  shows "(of_int a :: rat) < 2 powi bitlen a"
proof -
  have "a < 2 ^ nat (bitlen a)" using bitlen_bounds [OF assms] by simp
  then have "(of_int a :: rat) < of_int (2 ^ nat (bitlen a))" by (simp only: of_int_less_iff)
  then show ?thesis by (simp add: power_int_nonneg_exp bitlen_nonneg)
qed

lemma floor_log2_bounds:
  assumes "0 < q"
  shows "2 powi floor_log2 q \<le> q \<and> q < 2 powi (floor_log2 q + 1)"
proof -
  obtain a b where ab: "quotient_of q = (a, b)" by fastforce
  have b: "0 < b" using quotient_of_denom_pos [OF ab] .
  have q: "q = of_int a / of_int b" using quotient_of_div [OF ab] .
  have a: "0 < a" using assms b q by (simp add: zero_less_divide_iff)
  define k where "k = bitlen a - bitlen b"
  have "(2::rat) powi (k - 1) = 2 powi (bitlen a - 1) / 2 powi bitlen b"
    unfolding k_def by (simp add: power_int_diff [symmetric] algebra_simps)
  also have "\<dots> \<le> of_int a / of_int b"
    using bitlen_powi_lower [OF a] bitlen_powi_upper [OF b] a b
    by (intro frac_le) simp_all
  finally have lo: "2 powi (k - 1) \<le> q" using q by simp
  have "of_int a / of_int b < (2::rat) powi bitlen a / 2 powi (bitlen b - 1)"
    using bitlen_powi_lower [OF b] bitlen_powi_upper [OF a] a b
    by (intro frac_less) simp_all
  also have "\<dots> = 2 powi (k + 1)"
    unfolding k_def by (simp add: power_int_diff [symmetric] algebra_simps)
  finally have hi: "q < 2 powi (k + 1)" using q by simp
  show ?thesis
    using lo hi by (simp add: floor_log2_def ab k_def Let_def)
qed

lemma floor_log2_less:
  assumes "0 < q" and "q < 2 powi n"
  shows "floor_log2 q < n"
proof -
  have "2 powi floor_log2 q \<le> q" using floor_log2_bounds [OF assms(1)] by simp
  with assms(2) have "(2::rat) powi floor_log2 q < 2 powi n" by simp
  then show ?thesis by (rule powi_less_imp_less)
qed

lemma round_half_even_of_int: "round_half_even (of_int n) = n"
  by (simp add: round_half_even_def)

lemma round_half_even_ge:
  assumes "of_int n \<le> y"
  shows "n \<le> round_half_even y"
proof -
  have "n \<le> \<lfloor>y\<rfloor>" using assms by (simp add: le_floor_iff)
  then show ?thesis by (simp add: round_half_even_def Let_def)
qed

lemma round_half_even_le:
  assumes "y \<le> of_int n"
  shows "round_half_even y \<le> n"
proof (cases "y = of_int n")
  case True
  then show ?thesis by (simp add: round_half_even_of_int)
next
  case False
  with assms have "y < of_int n" by simp
  then have "\<lfloor>y\<rfloor> < n" by (simp add: floor_less_iff)
  then show ?thesis by (simp add: round_half_even_def Let_def)
qed

lemma round_half_even_close: "\<bar>of_int (round_half_even y) - y\<bar> \<le> 1 / 2"
proof -
  have "of_int \<lfloor>y\<rfloor> \<le> y" "y < of_int \<lfloor>y\<rfloor> + 1" by linarith+
  then show ?thesis by (auto simp: round_half_even_def Let_def)
qed


lemma grid_rescale:
  assumes "u \<le> e"
  shows "of_int n * (2::rat) powi e = of_int (n * 2 ^ nat (e - u)) * 2 powi u"
proof -
  have "(2::rat) powi e = 2 powi (e - u) * 2 powi u"
    by (simp add: power_int_add [symmetric])
  also have "(2::rat) powi (e - u) = 2 ^ nat (e - u)"
    using assms by (simp add: power_int_nonneg_exp)
  finally show ?thesis by simp
qed

lemma round_nearest_ge_grid:
  assumes "ulp_exp q \<le> e" and "of_int n * 2 powi e \<le> q"
  shows "of_int n * 2 powi e \<le> round_nearest q"
proof (cases "q = 0")
  case True
  with assms(2) show ?thesis by (simp add: round_nearest_def)
next
  case False
  define u where "u = ulp_exp q"
  define k where "k = n * 2 ^ nat (e - u)"
  have pos: "0 < (2::rat) powi u" by simp
  have c: "of_int n * (2::rat) powi e = of_int k * 2 powi u"
    unfolding k_def using assms(1) by (intro grid_rescale) (simp add: u_def)
  with assms(2) have "of_int k * 2 powi u \<le> q" by simp
  then have "of_int k \<le> q / 2 powi u" using pos by (simp add: pos_le_divide_eq)
  then have "k \<le> round_half_even (q / 2 powi u)" by (rule round_half_even_ge)
  then have "(of_int k :: rat) \<le> of_int (round_half_even (q / 2 powi u))" by simp
  then have "of_int k * 2 powi u \<le> (of_int (round_half_even (q / 2 powi u)) :: rat) * 2 powi u"
    using pos by (simp only: mult_le_cancel_right_pos)
  then show ?thesis using False c by (simp add: round_nearest_def u_def)
qed

lemma round_nearest_le_grid:
  assumes "ulp_exp q \<le> e" and "q \<le> of_int n * 2 powi e"
  shows "round_nearest q \<le> of_int n * 2 powi e"
proof (cases "q = 0")
  case True
  with assms(2) show ?thesis by (simp add: round_nearest_def)
next
  case False
  define u where "u = ulp_exp q"
  define k where "k = n * 2 ^ nat (e - u)"
  have pos: "0 < (2::rat) powi u" by simp
  have c: "of_int n * (2::rat) powi e = of_int k * 2 powi u"
    unfolding k_def using assms(1) by (intro grid_rescale) (simp add: u_def)
  with assms(2) have "q \<le> of_int k * 2 powi u" by simp
  then have "q / 2 powi u \<le> of_int k" using pos by (simp add: pos_divide_le_eq)
  then have "round_half_even (q / 2 powi u) \<le> k" by (rule round_half_even_le)
  then have "(of_int (round_half_even (q / 2 powi u)) :: rat) \<le> of_int k" by simp
  then have "(of_int (round_half_even (q / 2 powi u)) :: rat) * 2 powi u \<le> of_int k * 2 powi u"
    using pos by (simp only: mult_le_cancel_right_pos)
  then show ?thesis using False c by (simp add: round_nearest_def u_def)
qed

lemma round_nearest_grid:
  assumes "ulp_exp (of_int n * 2 powi e) \<le> e"
  shows "round_nearest (of_int n * 2 powi e) = of_int n * 2 powi e"
  using round_nearest_ge_grid [OF assms order_refl] round_nearest_le_grid [OF assms order_refl]
  by simp

lemma ulp_exp_le:
  assumes "q \<noteq> 0" and "\<bar>q\<bar> < 2 powi (e + 53)" and "- 1074 \<le> e"
  shows "ulp_exp q \<le> e"
proof -
  have "0 < \<bar>q\<bar>" using assms(1) by simp
  then have "floor_log2 \<bar>q\<bar> < e + 53" using assms(2) by (rule floor_log2_less)
  with assms(3) show ?thesis by (simp add: ulp_exp_def)
qed

lemma round_nearest_close:
  assumes "q \<noteq> 0"
  shows "\<bar>round_nearest q - q\<bar> \<le> 2 powi ulp_exp q / 2"
proof -
  define u where "u = ulp_exp q"
  define y where "y = q / 2 powi u"
  have pos: "0 < (2::rat) powi u" by simp
  have yq: "y * 2 powi u = q" unfolding y_def by simp
  have rn: "round_nearest q = of_int (round_half_even y) * 2 powi u"
    using assms by (simp add: round_nearest_def u_def y_def)
  have "round_nearest q - q = of_int (round_half_even y) * 2 powi u - y * 2 powi u"
    by (simp only: yq rn)
  also have "\<dots> = (of_int (round_half_even y) - y) * 2 powi u"
    by (simp add: algebra_simps)
  finally have "round_nearest q - q = (of_int (round_half_even y) - y) * 2 powi u" .
  then have "\<bar>round_nearest q - q\<bar> = \<bar>of_int (round_half_even y) - y\<bar> * 2 powi u"
    using pos by (simp add: abs_mult)
  also have "\<dots> \<le> (1 / 2) * 2 powi u"
    using round_half_even_close [of y] pos by (simp only: mult_le_cancel_right_pos)
  finally show ?thesis by (simp add: u_def)
qed

lemma round_nearest_of_int:
  assumes "\<bar>n\<bar> < 2 ^ 53"
  shows "round_nearest (of_int n) = of_int n"
proof (cases "n = 0")
  case True
  then show ?thesis by (simp add: round_nearest_def)
next
  case False
  have "(of_int \<bar>n\<bar> :: rat) < of_int (2 ^ 53)" using assms by (simp only: of_int_less_iff)
  then have "\<bar>of_int n :: rat\<bar> < 2 powi (0 + 53)" by simp
  then have "ulp_exp (of_int n) \<le> 0" using False by (intro ulp_exp_le) simp_all
  then have "ulp_exp (of_int n * 2 powi 0) \<le> 0" by simp
  then have "round_nearest (of_int n * 2 powi 0) = of_int n * 2 powi 0"
    by (rule round_nearest_grid)
  then show ?thesis by simp
qed

lemma int_to_float_exact:
  assumes "\<bar>n\<bar> < 2 ^ 53"
  shows "int_to_float n = Inr (Finite (of_int n))"
proof -
  have "(of_int \<bar>n\<bar> :: rat) < of_int (2 ^ 53)" using assms by (simp only: of_int_less_iff)
  then have "\<bar>of_int n :: rat\<bar> < 2 ^ 53" by simp
  also have "(2::rat) ^ 53 < 2 ^ 1024" by simp
  finally have "\<not> too_large (of_int n)" by (simp add: too_large_def)
  then show ?thesis by (simp add: int_to_float_def round_nearest_of_int [OF assms])
qed

subsection \<open>The quotient and the sum within the widget ranges\<close>

lemma not_too_large:
  assumes "\<bar>r\<bar> \<le> 2 ^ 1023"
  shows "\<not> too_large r"
proof -
  have "(2::rat) ^ 1023 < 2 ^ 1024" by simp
  with assms have "\<bar>r\<bar> < 2 ^ 1024" by (rule le_less_trans)
  then show ?thesis by (simp add: too_large_def)
qed

lemma minute_quotient:
  assumes "0 \<le> m" and "m \<le> 59"
  shows "\<exists>d. int_div_60 m = Inr (Finite d) \<and> d = round_nearest (of_int m / 60) \<and>
             0 \<le> d \<and> d \<le> 63 / 64 \<and> \<bar>d - of_int m / 60\<bar> \<le> 1 / 2 ^ 54"
proof -
  define q :: rat where "q = of_int m / 60"
  define d where "d = round_nearest q"
  have q0: "0 \<le> q" using assms(1) by (simp add: q_def)
  have "(of_int m :: rat) \<le> of_int 59" using assms(2) by (simp only: of_int_le_iff)
  then have q1: "q \<le> 59 / 60" by (simp add: q_def)
  have bounds: "0 \<le> d \<and> d \<le> 63 / 64 \<and> \<bar>d - q\<bar> \<le> 1 / 2 ^ 54"
  proof (cases "q = 0")
    case True
    then show ?thesis by (simp add: d_def round_nearest_def)
  next
    case False
    have "\<bar>q\<bar> < 2 powi (- 53 + 53)" using q0 q1 by simp
    with False have u: "ulp_exp q \<le> - 53" by (intro ulp_exp_le) simp_all
    have "of_int 0 * 2 powi (- 53) \<le> round_nearest q"
      using u q0 by (intro round_nearest_ge_grid) simp_all
    then have lo: "0 \<le> d" by (simp add: d_def)
    have "round_nearest q \<le> of_int 63 * 2 powi (- 6)"
      using u q1 by (intro round_nearest_le_grid) simp_all
    then have hi: "d \<le> 63 / 64" by (simp add: d_def)
    have "(2::rat) powi ulp_exp q \<le> 2 powi (- 53)"
      using u by (intro power_int_increasing) simp_all
    then have "(2::rat) powi ulp_exp q / 2 \<le> 1 / 2 ^ 54" by simp
    with round_nearest_close [OF False] have "\<bar>d - q\<bar> \<le> 1 / 2 ^ 54"
      unfolding d_def by (rule order_trans)
    with lo hi show ?thesis by simp
  qed
  then have "\<bar>d\<bar> \<le> 2 ^ 1023" by simp
  then have "\<not> too_large d" by (rule not_too_large)
  then have "int_div_60 m = Inr (Finite d)"
    by (simp add: int_div_60_def d_def q_def)
  with bounds show ?thesis unfolding d_def q_def by blast
qed


lemma hour_plus_fraction:
  assumes "0 \<le> h" and "h \<le> 23" and "0 \<le> d" and "d \<le> 63 / 64"
  shows "\<exists>t. float_add (Finite (of_int h)) (Finite d) = Finite t \<and>
             t = round_nearest (of_int h + d) \<and>
             of_int h \<le> t \<and> t \<le> of_int h + 63 / 64 \<and>
             \<bar>t - (of_int h + d)\<bar> \<le> 1 / 2 ^ 49"
proof -
  define x :: rat where "x = of_int h + d"
  define t where "t = round_nearest x"
  have h0: "(0::rat) \<le> of_int h" using assms(1) by simp
  have "(of_int h :: rat) \<le> of_int 23" using assms(2) by (simp only: of_int_le_iff)
  then have h1: "(of_int h :: rat) \<le> 23" by simp
  have x0: "of_int h \<le> x" using assms(3) by (simp add: x_def)
  have x1: "x \<le> of_int h + 63 / 64" using assms(4) by (simp add: x_def)
  have bounds: "of_int h \<le> t \<and> t \<le> of_int h + 63 / 64 \<and> \<bar>t - x\<bar> \<le> 1 / 2 ^ 49"
  proof (cases "x = 0")
    case True
    with x0 x1 show ?thesis by (simp add: t_def round_nearest_def)
  next
    case False
    have "\<bar>x\<bar> < 2 powi (- 48 + 53)" using h0 h1 x0 x1 by simp
    with False have u: "ulp_exp x \<le> - 48" by (intro ulp_exp_le) simp_all
    have "of_int h * 2 powi 0 \<le> round_nearest x"
      using u x0 by (intro round_nearest_ge_grid) simp_all
    then have lo: "of_int h \<le> t" by (simp add: t_def)
    have "round_nearest x \<le> of_int (64 * h + 63) * 2 powi (- 6)"
      using u x1 by (intro round_nearest_le_grid) simp_all
    then have hi: "t \<le> of_int h + 63 / 64" by (simp add: t_def)
    have "(2::rat) powi ulp_exp x \<le> 2 powi (- 48)"
      using u by (intro power_int_increasing) simp_all
    then have "(2::rat) powi ulp_exp x / 2 \<le> 1 / 2 ^ 49" by simp
    with round_nearest_close [OF False] have "\<bar>t - x\<bar> \<le> 1 / 2 ^ 49"
      unfolding t_def by (rule order_trans)
    with lo hi show ?thesis by simp
  qed
  then have "\<bar>t\<bar> \<le> 2 ^ 1023" using h0 h1 by simp
  then have "\<not> too_large t" by (rule not_too_large)
  then have "float_add (Finite (of_int h)) (Finite d) = Finite t"
    by (simp add: t_def x_def)
  with bounds show ?thesis unfolding t_def x_def by blast
qed

lemma quarter_exact:
  assumes "\<bar>k\<bar> < 2 ^ 50"
  shows "round_nearest (of_int k / 4) = of_int k / 4"
proof (cases "k = 0")
  case True
  then show ?thesis by (simp add: round_nearest_def)
next
  case False
  have "(of_int \<bar>k\<bar> :: rat) < of_int (2 ^ 50)" using assms by (simp only: of_int_less_iff)
  then have "\<bar>of_int k :: rat\<bar> < 2 ^ 50" by simp
  then have "\<bar>of_int k * 2 powi (- 2) :: rat\<bar> < 2 powi (- 2 + 53)"
    by (simp add: abs_mult)
  then have "ulp_exp (of_int k * 2 powi (- 2)) \<le> - 2"
    using False by (intro ulp_exp_le) simp_all
  then have "round_nearest (of_int k * 2 powi (- 2)) = of_int k * 2 powi (- 2)"
    by (rule round_nearest_grid)
  then show ?thesis by simp
qed

lemma pickup_time_bounds:
  assumes "0 \<le> h24" and "h24 \<le> 23" and "0 \<le> minute" and "minute \<le> 59"
  shows "\<exists>t. pickup_time h24 minute = Inr (Finite t) \<and>
             t = round_nearest (of_int h24 + round_nearest (of_int minute / 60)) \<and>
             of_int h24 \<le> t \<and> t < of_int h24 + 1 \<and>
             \<bar>t - (of_int h24 + of_int minute / 60)\<bar> \<le> 1 / 2 ^ 48 \<and>
             (minute mod 15 = 0 \<longrightarrow> t = of_int h24 + of_int minute / 60)"
proof -
  obtain d where d: "int_div_60 minute = Inr (Finite d)"
      "d = round_nearest (of_int minute / 60)" "0 \<le> d" "d \<le> 63 / 64"
      "\<bar>d - of_int minute / 60\<bar> \<le> 1 / 2 ^ 54"
    using minute_quotient [OF assms(3,4)] by blast
  obtain t where t: "float_add (Finite (of_int h24)) (Finite d) = Finite t"
      "t = round_nearest (of_int h24 + d)" "of_int h24 \<le> t" "t \<le> of_int h24 + 63 / 64"
      "\<bar>t - (of_int h24 + d)\<bar> \<le> 1 / 2 ^ 49"
    using hour_plus_fraction [OF assms(1,2) d(3,4)] by blast
  have "\<bar>h24\<bar> < 2 ^ 53" using assms(1,2) by simp
  then have "int_to_float h24 = Inr (Finite (of_int h24))" by (rule int_to_float_exact)
  then have run: "pickup_time h24 minute = Inr (Finite t)"
    by (simp add: pickup_time_def d(1) t(1) del: float_add.simps)
  have "\<bar>t - (of_int h24 + of_int minute / 60)\<bar> \<le>
        \<bar>t - (of_int h24 + d)\<bar> + \<bar>d - of_int minute / 60\<bar>"
    by linarith
  also have "\<dots> \<le> 1 / 2 ^ 49 + 1 / 2 ^ 54" using t(5) d(5) by (rule add_mono)
  also have "\<dots> \<le> (1::rat) / 2 ^ 48" by simp
  finally have close: "\<bar>t - (of_int h24 + of_int minute / 60)\<bar> \<le> 1 / 2 ^ 48" .
  have exact: "t = of_int h24 + of_int minute / 60" if "minute mod 15 = 0"
  proof -
    from that obtain k where k: "minute = 15 * k" by (auto simp: mod_eq_0_iff_dvd)
    then have k4: "(of_int minute :: rat) / 60 = of_int k / 4" by simp
    have "0 \<le> k \<and> k \<le> 3" using assms(3,4) k by simp
    then have "\<bar>k\<bar> < 2 ^ 50" by simp
    then have dk: "d = of_int k / 4" unfolding d(2) k4 by (rule quarter_exact)
    have sum: "(of_int h24 :: rat) + of_int k / 4 = of_int (4 * h24 + k) / 4" by simp
    have "\<bar>4 * h24 + k\<bar> < 2 ^ 50" using assms(1,2) \<open>0 \<le> k \<and> k \<le> 3\<close> by simp
    then have "round_nearest (of_int (4 * h24 + k) / 4) = of_int (4 * h24 + k) / 4"
      by (rule quarter_exact)
    then show ?thesis unfolding t(2) dk k4 sum .
  qed
  have "t < of_int h24 + 1" using t(4) by simp
  with run t(2,3) d(2) close exact show ?thesis by blast
qed

subsection \<open>The derivation as a whole\<close>

lemma int_div_60_zero: "int_div_60 0 = Inr (Finite 0)"
  by (simp add: int_div_60_def round_nearest_def too_large_def)

lemma pickup_time_whole:
  assumes "\<bar>h\<bar> < 2 ^ 53"
  shows "pickup_time h 0 = Inr (Finite (of_int h))"
proof -
  have r: "round_nearest (of_int h) = of_int h" using assms by (rule round_nearest_of_int)
  have "(of_int \<bar>h\<bar> :: rat) < of_int (2 ^ 53)" using assms by (simp only: of_int_less_iff)
  then have "\<bar>of_int h :: rat\<bar> \<le> 2 ^ 53" by simp
  also have "(2::rat) ^ 53 \<le> 2 ^ 1023" by simp
  finally have "\<not> too_large (of_int h)" by (rule not_too_large)
  then have "float_add (Finite (of_int h)) (Finite 0) = Finite (of_int h)"
    by (simp add: r)
  then show ?thesis
    by (simp add: pickup_time_def int_div_60_zero int_to_float_exact [OF assms]
        del: float_add.simps)
qed

lemma input_data_exact:
  assumes "\<bar>duration\<bar> < 2 ^ 53" and "\<bar>passengers\<bar> < 2 ^ 53"
  shows "input_data distance duration time night passengers =
         Inr [[distance, Finite (of_int duration), time,
               Finite (if night then 1 else 0), Finite (of_int passengers)]]"
proof -
  have "\<bar>if night then 1 else 0 :: int\<bar> < 2 ^ 53" by simp
  then have "int_to_float (if night then 1 else 0) = Inr (Finite (of_int (if night then 1 else 0)))"
    by (rule int_to_float_exact)
  then have n: "int_to_float (if night then 1 else 0) = Inr (Finite (if night then 1 else 0))"
    by (simp split: if_splits)
  show ?thesis
    by (simp add: input_data_def int_to_float_exact [OF assms(1)]
        int_to_float_exact [OF assms(2)] n)
qed

lemma hour_range:
  assumes "1 \<le> h12" and "h12 \<le> 12"
  shows "0 \<le> pickup_hour_24 ap h12 \<and> pickup_hour_24 ap h12 \<le> 23"
  using assms by (simp add: pickup_hour_24_def)

lemma distance_steps_mem:
  assumes "1 \<le> k" and "k \<le> 100"
  shows "Finite (of_nat k / 2) \<in> set distance_steps"
proof -
  have "k \<in> set [1 ..< 101]" using assms by simp
  then have "(\<lambda>k. Finite (of_nat k / 2)) k \<in> (\<lambda>k. Finite (of_nat k / 2)) ` set [1 ..< 101]"
    by (rule imageI)
  then show ?thesis by (simp only: distance_steps_def set_map)
qed

lemma derive_in_range:
  assumes "widget_range r"
  shows "\<exists>t. derive r =
           Inr (pickup_hour_24 (am_pm r) (pickup_hour_12 r), Finite t,
                is_night (pickup_hour_24 (am_pm r) (pickup_hour_12 r))) \<and>
         pickup_time (pickup_hour_24 (am_pm r) (pickup_hour_12 r)) (pickup_minute r) =
           Inr (Finite t)"
proof -
  define h where "h = pickup_hour_24 (am_pm r) (pickup_hour_12 r)"
  have "1 \<le> pickup_hour_12 r" "pickup_hour_12 r \<le> 12"
    using assms by (simp_all add: widget_range_def)
  then have h: "0 \<le> h" "h \<le> 23" using hour_range unfolding h_def by blast+
  have m: "0 \<le> pickup_minute r" "pickup_minute r \<le> 59"
    using assms by (simp_all add: widget_range_def)
  obtain t where "pickup_time h (pickup_minute r) = Inr (Finite t)"
    using pickup_time_bounds [OF h m] by blast
  then show ?thesis by (simp add: derive_def h_def Let_def)
qed

lemma features_in_range:
  assumes "widget_range r"
  shows "\<exists>t. features r =
           Inr [[trip_distance r, Finite (of_int (trip_duration r)), Finite t,
                 Finite (if is_night (pickup_hour_24 (am_pm r) (pickup_hour_12 r)) then 1 else 0),
                 Finite (of_int (passenger_count r))]] \<and>
         pickup_time (pickup_hour_24 (am_pm r) (pickup_hour_12 r)) (pickup_minute r) =
           Inr (Finite t)"
proof -
  obtain t where t: "derive r =
      Inr (pickup_hour_24 (am_pm r) (pickup_hour_12 r), Finite t,
           is_night (pickup_hour_24 (am_pm r) (pickup_hour_12 r)))"
    "pickup_time (pickup_hour_24 (am_pm r) (pickup_hour_12 r)) (pickup_minute r) =
       Inr (Finite t)"
    using derive_in_range [OF assms] by blast
  have "\<bar>trip_duration r\<bar> < 2 ^ 53" "\<bar>passenger_count r\<bar> < 2 ^ 53"
    using assms by (simp_all add: widget_range_def)
  then show ?thesis using t(2) by (simp add: features_def t(1) input_data_exact)
qed

lemma features_error:
  assumes "features r = Inl e"
  shows "e = OverflowError"
  using assms
  by (auto simp: features_def derive_def input_data_def pickup_time_def int_to_float_def
      int_div_60_def Let_def split: sum.splits prod.splits if_splits)

lemma round_nearest_bounded:
  assumes "\<bar>q\<bar> \<le> 2 ^ 1023"
  shows "\<bar>round_nearest q\<bar> \<le> 2 ^ 1023"
proof (cases "q = 0")
  case True
  then show ?thesis by (simp add: round_nearest_def)
next
  case False
  have "(2::rat) ^ 1023 < 2 ^ 1076" by simp
  with assms have "\<bar>q\<bar> < 2 ^ 1076" by (rule le_less_trans)
  then have "\<bar>q\<bar> < 2 powi (1023 + 53)" by simp
  with False have u: "ulp_exp q \<le> 1023" by (intro ulp_exp_le) simp_all
  have "q \<le> of_int 1 * 2 powi 1023" using assms by simp
  with u have hi: "round_nearest q \<le> of_int 1 * 2 powi 1023" by (rule round_nearest_le_grid)
  have "of_int (- 1) * 2 powi 1023 \<le> q" using assms by simp
  with u have lo: "of_int (- 1) * 2 powi 1023 \<le> round_nearest q" by (rule round_nearest_ge_grid)
  from lo hi show ?thesis by simp
qed

lemma int_to_float_total:
  assumes "\<bar>n\<bar> \<le> 2 ^ 1023"
  shows "int_to_float n = Inr (Finite (round_nearest (of_int n)))"
proof -
  have "(of_int \<bar>n\<bar> :: rat) \<le> of_int (2 ^ 1023)" using assms by (simp only: of_int_le_iff)
  then have "\<bar>of_int n :: rat\<bar> \<le> 2 ^ 1023" by simp
  then have "\<bar>round_nearest (of_int n)\<bar> \<le> 2 ^ 1023" by (rule round_nearest_bounded)
  then have "\<not> too_large (round_nearest (of_int n))" by (rule not_too_large)
  then show ?thesis by (simp add: int_to_float_def)
qed

lemma int_div_60_total:
  assumes "\<bar>a\<bar> \<le> 2 ^ 1023"
  shows "int_div_60 a = Inr (Finite (round_nearest (of_int a / 60)))"
proof -
  have "(of_int \<bar>a\<bar> :: rat) \<le> of_int (2 ^ 1023)" using assms by (simp only: of_int_le_iff)
  then have "\<bar>of_int a :: rat\<bar> \<le> 2 ^ 1023" by simp
  moreover have "\<bar>of_int a / 60 :: rat\<bar> \<le> \<bar>of_int a\<bar>" by simp
  ultimately have "\<bar>of_int a / 60 :: rat\<bar> \<le> 2 ^ 1023" by (rule order_trans [rotated])
  then have "\<bar>round_nearest (of_int a / 60)\<bar> \<le> 2 ^ 1023" by (rule round_nearest_bounded)
  then have "\<not> too_large (round_nearest (of_int a / 60))" by (rule not_too_large)
  then show ?thesis by (simp add: int_div_60_def)
qed

lemma int_to_float_overflow:
  assumes "2 ^ 1024 \<le> n" and "n < 2 ^ 1077"
  shows "int_to_float n = Inl OverflowError"
proof -
  define q :: rat where "q = of_int n"
  have "(of_int (2 ^ 1024) :: rat) \<le> of_int n" using assms(1) by (simp only: of_int_le_iff)
  then have lo: "2 ^ 1024 \<le> q" by (simp add: q_def)
  have "(of_int n :: rat) < of_int (2 ^ 1077)" using assms(2) by (simp only: of_int_less_iff)
  then have hi: "q < 2 ^ 1077" by (simp add: q_def)
  have pos: "0 < q" using lo by (rule less_le_trans [rotated]) simp
  then have "\<bar>q\<bar> < 2 powi (1024 + 53)" using hi by simp
  then have u: "ulp_exp q \<le> 1024" using pos by (intro ulp_exp_le) simp_all
  have "of_int 1 * 2 powi 1024 \<le> q" using lo by simp
  with u have "of_int 1 * 2 powi 1024 \<le> round_nearest q" by (rule round_nearest_ge_grid)
  then have "too_large (round_nearest q)" by (simp add: too_large_def)
  then show ?thesis by (simp add: int_to_float_def q_def)
qed

lemma derive_total:
  assumes "\<bar>pickup_hour_12 r\<bar> \<le> 2 ^ 1000" and "\<bar>pickup_minute r\<bar> \<le> 2 ^ 1000"
  shows "\<exists>t. derive r =
           Inr (pickup_hour_24 (am_pm r) (pickup_hour_12 r), t,
                is_night (pickup_hour_24 (am_pm r) (pickup_hour_12 r)))"
proof -
  define h where "h = pickup_hour_24 (am_pm r) (pickup_hour_12 r)"
  have "\<bar>h\<bar> \<le> \<bar>pickup_hour_12 r\<bar> + 12" by (auto simp: h_def pickup_hour_24_def)
  also have "\<dots> \<le> 2 ^ 1000 + 12" using assms(1) by simp
  also have "\<dots> \<le> (2::int) ^ 1023" by simp
  finally have "\<exists>x. int_to_float h = Inr x" using int_to_float_total by blast
  moreover have "\<bar>pickup_minute r\<bar> \<le> 2 ^ 1023"
    using assms(2) by (rule order_trans) simp
  then have "\<exists>d. int_div_60 (pickup_minute r) = Inr d" using int_div_60_total by blast
  ultimately have "\<exists>t. pickup_time h (pickup_minute r) = Inr t"
    by (auto simp: pickup_time_def)
  then show ?thesis by (auto simp: derive_def h_def Let_def)
qed

lemma input_data_total:
  assumes "\<bar>duration\<bar> \<le> 2 ^ 1000" and "\<bar>passengers\<bar> \<le> 2 ^ 1000"
  shows "\<exists>du pa. input_data distance duration time night passengers =
           Inr [[distance, du, time, Finite (if night then 1 else 0), pa]]"
proof -
  have "\<bar>duration\<bar> \<le> 2 ^ 1023" using assms(1) by (rule order_trans) simp
  then have du: "\<exists>x. int_to_float duration = Inr x" using int_to_float_total by blast
  have "\<bar>passengers\<bar> \<le> 2 ^ 1023" using assms(2) by (rule order_trans) simp
  then have pa: "\<exists>x. int_to_float passengers = Inr x" using int_to_float_total by blast
  have n1: "int_to_float 1 = Inr (Finite 1)" using int_to_float_exact [of 1] by simp
  have n0: "int_to_float 0 = Inr (Finite 0)" using int_to_float_exact [of 0] by simp
  from du pa show ?thesis by (auto simp: input_data_def n0 n1)
qed

lemma hour_13_PM_features:
  "features \<lparr>passenger_count = 1, trip_distance = Finite 5, trip_duration = 15,
             pickup_hour_12 = 13, pickup_minute = 0, am_pm = ''PM''\<rparr> =
     Inr [[Finite 5, Finite 15, Finite 25, Finite 1, Finite 1]]"
proof -
  have h: "pickup_hour_24 ''PM'' 13 = 25" by (simp add: pickup_hour_24_def)
  have t: "pickup_time 25 0 = Inr (Finite 25)" using pickup_time_whole [of 25] by simp
  have n: "is_night 25" by (simp add: is_night_def)
  have i: "input_data (Finite 5) 15 (Finite 25) True 1 =
           Inr [[Finite 5, Finite 15, Finite 25, Finite 1, Finite 1]]"
    using input_data_exact [of 15 1 "Finite 5" "Finite 25" True] by simp
  show ?thesis by (simp add: h t n i derive_def features_def)
qed

lemma huge_hour_overflow:
  assumes "2 ^ 1024 \<le> n" and "n + 12 < 2 ^ 1077"
  shows "pickup_hour_24 ''PM'' n = n + 12 \<and>
         derive \<lparr>passenger_count = p, trip_distance = x, trip_duration = u,
                 pickup_hour_12 = n, pickup_minute = 0, am_pm = ''PM''\<rparr> = Inl OverflowError \<and>
         features \<lparr>passenger_count = p, trip_distance = x, trip_duration = u,
                   pickup_hour_12 = n, pickup_minute = 0, am_pm = ''PM''\<rparr> = Inl OverflowError"
proof -
  have "(12::int) < 2 ^ 1024" by simp
  with assms(1) have "n \<noteq> 12" by linarith
  then have h: "pickup_hour_24 ''PM'' n = n + 12" by (simp add: pickup_hour_24_def)
  have "2 ^ 1024 \<le> n + 12" using assms(1) by linarith
  then have "int_to_float (n + 12) = Inl OverflowError"
    using assms(2) by (rule int_to_float_overflow)
  then have t: "pickup_time (n + 12) 0 = Inl OverflowError"
    by (simp add: pickup_time_def int_div_60_zero)
  show ?thesis by (simp add: h t derive_def features_def)
qed

section \<open>The 12-hour to 24-hour conversion\<close>

text \<open>
  Claim C2. For an hour from 1 to 12, \<open>pickup_hour_24\<close> gives 0 for 12 AM and the hour
  itself for any other AM hour, 12 for 12 PM and the hour plus 12 for any other PM
  hour. The result is a plain integer: the conversion has no error case, and on this
  domain it stays within 0 to 11 for AM and 12 to 23 for PM.
\<close>

theorem pickup_hour_24_rule:
  assumes "1 \<le> h12" and "h12 \<le> 12"
  shows "(h12 = 12 \<longrightarrow> pickup_hour_24 ''AM'' h12 = 0) \<and>
         (h12 \<noteq> 12 \<longrightarrow> pickup_hour_24 ''AM'' h12 = h12) \<and>
         (h12 = 12 \<longrightarrow> pickup_hour_24 ''PM'' h12 = 12) \<and>
         (h12 \<noteq> 12 \<longrightarrow> pickup_hour_24 ''PM'' h12 = h12 + 12) \<and>
         0 \<le> pickup_hour_24 ''AM'' h12 \<and> pickup_hour_24 ''AM'' h12 \<le> 11 \<and>
         12 \<le> pickup_hour_24 ''PM'' h12 \<and> pickup_hour_24 ''PM'' h12 \<le> 23"
  using assms by (simp add: pickup_hour_24_def)

theorem pickup_hour_24_rule_witness:
  "pickup_hour_24 ''AM'' 12 = 0 \<and> pickup_hour_24 ''PM'' 12 = 12 \<and>
   pickup_hour_24 ''AM'' 7 = 7 \<and> pickup_hour_24 ''PM'' 7 = 19"
  using pickup_hour_24_rule [of 12] pickup_hour_24_rule [of 7] by simp

section \<open>The night flag\<close>

text \<open>
  Claim C3. For an hour from 0 to 23, \<open>is_night\<close> holds exactly when the hour is at
  least 22 or at most 5; at the boundaries, 5 is night, 6 is not, 21 is not, 22 is,
  and 0 and 23 are.
\<close>

theorem is_night_rule:
  "(\<forall>h24. 0 \<le> h24 \<and> h24 \<le> 23 \<longrightarrow> (is_night h24 \<longleftrightarrow> h24 \<ge> 22 \<or> h24 \<le> 5)) \<and>
   is_night 5 \<and> \<not> is_night 6 \<and> \<not> is_night 21 \<and> is_night 22 \<and> is_night 0 \<and> is_night 23"
  by (simp add: is_night_def)

theorem is_night_rule_witness:
  "(0::int) \<le> 3 \<and> (3::int) \<le> 23 \<and> is_night 3 \<and> \<not> is_night 12"
proof -
  have a: "\<And>h24. 0 \<le> h24 \<and> h24 \<le> 23 \<longrightarrow> (is_night h24 \<longleftrightarrow> h24 \<ge> 22 \<or> h24 \<le> 5)"
    using is_night_rule by blast
  show ?thesis using a [of 3] a [of 12] by simp
qed

section \<open>The conversion as a bijection\<close>

lemma AM_image: "(\<lambda>h. pickup_hour_24 ''AM'' h) ` {1..12} = {0..11}"
proof (intro equalityI subsetI)
  fix y assume "y \<in> (\<lambda>h. pickup_hour_24 ''AM'' h) ` {1..12}"
  then show "y \<in> {0..11}" by (auto simp: pickup_hour_24_def)
next
  fix y :: int assume y: "y \<in> {0..11}"
  show "y \<in> (\<lambda>h. pickup_hour_24 ''AM'' h) ` {1..12}"
  proof (cases "y = 0")
    case True
    then have "y = pickup_hour_24 ''AM'' 12" by (simp add: pickup_hour_24_def)
    then show ?thesis by (rule image_eqI) simp
  next
    case False
    with y have "y = pickup_hour_24 ''AM'' y" by (simp add: pickup_hour_24_def)
    then show ?thesis by (rule image_eqI) (use y False in simp)
  qed
qed

lemma PM_image: "(\<lambda>h. pickup_hour_24 ''PM'' h) ` {1..12} = {12..23}"
proof (intro equalityI subsetI)
  fix y assume "y \<in> (\<lambda>h. pickup_hour_24 ''PM'' h) ` {1..12}"
  then show "y \<in> {12..23}" by (auto simp: pickup_hour_24_def)
next
  fix y :: int assume y: "y \<in> {12..23}"
  show "y \<in> (\<lambda>h. pickup_hour_24 ''PM'' h) ` {1..12}"
  proof (cases "y = 12")
    case True
    then have "y = pickup_hour_24 ''PM'' 12" by (simp add: pickup_hour_24_def)
    then show ?thesis by (rule image_eqI) simp
  next
    case False
    with y have "y = pickup_hour_24 ''PM'' (y - 12)" by (simp add: pickup_hour_24_def)
    then show ?thesis by (rule image_eqI) (use y False in simp)
  qed
qed

lemma hour_inj:
  "inj_on (\<lambda>(h, ap). pickup_hour_24 ap h) ({1..12} \<times> {''AM'', ''PM''})"
  by (auto simp: inj_on_def pickup_hour_24_def split: if_splits)

lemma hour_image:
  "(\<lambda>(h, ap). pickup_hour_24 ap h) ` ({1..12} \<times> {''AM'', ''PM''}) = {0..23}"
proof -
  have "({1..12} \<times> {''AM'', ''PM''}) = (\<lambda>h. (h, ''AM'')) ` {1..12::int} \<union> (\<lambda>h. (h, ''PM'')) ` {1..12}"
    by auto
  then have "(\<lambda>(h, ap). pickup_hour_24 ap h) ` ({1..12} \<times> {''AM'', ''PM''}) =
     (\<lambda>h. pickup_hour_24 ''AM'' h) ` {1..12} \<union> (\<lambda>h. pickup_hour_24 ''PM'' h) ` {1..12}"
    by (simp add: image_Un image_image)
  also have "\<dots> = {0..11} \<union> {12..23}" by (simp only: AM_image PM_image)
  also have "\<dots> = {0..23::int}" by auto
  finally show ?thesis .
qed

text \<open>
  Claim C6. The conversion maps the 24 pairs of an hour from 1 to 12 and a meridiem
  one-to-one onto the hours 0 to 23; 12 AM is 0 and 12 PM is 12; the AM hours cover
  exactly 0 to 11 and the PM hours exactly 12 to 23.
\<close>

theorem pickup_hour_24_bijection:
  "bij_betw (\<lambda>(h, ap). pickup_hour_24 ap h) ({1..12} \<times> {''AM'', ''PM''}) {0..23} \<and>
   pickup_hour_24 ''AM'' 12 = 0 \<and> pickup_hour_24 ''PM'' 12 = 12 \<and>
   (\<lambda>h. pickup_hour_24 ''AM'' h) ` {1..12} = {0..11} \<and>
   (\<lambda>h. pickup_hour_24 ''PM'' h) ` {1..12} = {12..23}"
  unfolding bij_betw_def
  using hour_inj hour_image AM_image PM_image by (simp add: pickup_hour_24_def)

section \<open>The fractional hour\<close>

text \<open>
  Claim C5. For an hour from 0 to 23 and a minute from 0 to 59, \<open>pickup_time\<close> raises
  nothing and is the float \<^verbatim>\<open>hour24 + minute / 60\<close>: the quotient and the sum, each
  correctly rounded and with no other rounding. The value lies in the half-open interval
  from the hour to the hour plus one. It is the rational \<open>hour24 + minute / 60\<close> itself
  when the minute is a multiple of 15 (the cases where that rational is a float), and
  within \<open>2 ^ -48\<close> of it otherwise.
\<close>

theorem pickup_time_fractional:
  assumes "0 \<le> h24" and "h24 \<le> 23" and "0 \<le> minute" and "minute \<le> 59"
  shows "\<exists>t. pickup_time h24 minute = Inr (Finite t) \<and>
             t = round_nearest (of_int h24 + round_nearest (of_int minute / 60)) \<and>
             of_int h24 \<le> t \<and> t < of_int h24 + 1 \<and>
             \<bar>t - (of_int h24 + of_int minute / 60)\<bar> \<le> 1 / 2 ^ 48 \<and>
             (minute mod 15 = 0 \<longrightarrow> t = of_int h24 + of_int minute / 60)"
  using assms by (rule pickup_time_bounds)

theorem pickup_time_fractional_witness:
  "pickup_time 6 30 = Inr (Finite (13 / 2)) \<and> (\<exists>t. pickup_time 23 59 = Inr (Finite t) \<and> 23 \<le> t \<and> t < 24)"
proof -
  have a: "pickup_time 6 30 = Inr (Finite (13 / 2))"
    using pickup_time_fractional [of 6 30] by auto
  have b: "\<exists>t. pickup_time 23 59 = Inr (Finite t) \<and> 23 \<le> t \<and> t < 24"
    using pickup_time_fractional [of 23 59] by auto
  from a b show ?thesis by blast
qed

section \<open>The feature vector\<close>

text \<open>
  Claim C1. For every request within the widget ranges the run builds one row of
  exactly five floats, in the order trip distance, trip duration, fractional pickup
  time, night flag as 0 or 1, passenger count. The integers are converted without
  rounding and the pickup time is the value of \<open>pickup_time\<close> at the converted hour.
\<close>

theorem feature_vector_order:
  assumes "widget_range r"
  shows "\<exists>row t. features r = Inr [row] \<and> length row = 5 \<and>
           row = [trip_distance r, Finite (of_int (trip_duration r)), Finite t,
                  Finite (if is_night (pickup_hour_24 (am_pm r) (pickup_hour_12 r)) then 1 else 0),
                  Finite (of_int (passenger_count r))] \<and>
           pickup_time (pickup_hour_24 (am_pm r) (pickup_hour_12 r)) (pickup_minute r) =
             Inr (Finite t)"
  using features_in_range [OF assms] by auto

theorem feature_vector_order_witness:
  "features \<lparr>passenger_count = 2, trip_distance = Finite 10, trip_duration = 30,
             pickup_hour_12 = 6, pickup_minute = 30, am_pm = ''AM''\<rparr> =
     Inr [[Finite 10, Finite 30, Finite (13 / 2), Finite 0, Finite 2]]"
proof -
  let ?r = "\<lparr>passenger_count = 2, trip_distance = Finite 10, trip_duration = 30,
             pickup_hour_12 = 6, pickup_minute = 30, am_pm = ''AM''\<rparr>"
  have "Finite (of_nat 20 / 2) \<in> set distance_steps" by (rule distance_steps_mem) simp_all
  then have w: "widget_range ?r" by (simp add: widget_range_def)
  have h: "pickup_hour_24 ''AM'' 6 = 6" by (simp add: pickup_hour_24_def)
  have t: "pickup_time 6 30 = Inr (Finite (13 / 2))"
    using pickup_time_bounds [of 6 30] by auto
  have n: "\<not> is_night 6" by (simp add: is_night_def)
  show ?thesis using feature_vector_order [OF w] by (auto simp: h t n)
qed

text \<open>
  Claim C8. The request with distance 0.5, duration 2, hour 12, minute 0, AM and 6
  passengers gives hour 0, fractional hour 0.0, night, and the row
  \<open>[0.5, 2, 0.0, 1, 6]\<close>.
\<close>

theorem scenario_2_features:
  "pickup_hour_24 ''AM'' 12 = 0 \<and>
   pickup_time 0 0 = Inr (Finite 0) \<and>
   is_night 0 \<and>
   derive \<lparr>passenger_count = 6, trip_distance = Finite (1 / 2), trip_duration = 2,
           pickup_hour_12 = 12, pickup_minute = 0, am_pm = ''AM''\<rparr> =
     Inr (0, Finite 0, True) \<and>
   features \<lparr>passenger_count = 6, trip_distance = Finite (1 / 2), trip_duration = 2,
             pickup_hour_12 = 12, pickup_minute = 0, am_pm = ''AM''\<rparr> =
     Inr [[Finite (1 / 2), Finite 2, Finite 0, Finite 1, Finite 6]]"
proof -
  have h: "pickup_hour_24 ''AM'' 12 = 0" by (simp add: pickup_hour_24_def)
  have t: "pickup_time 0 0 = Inr (Finite 0)" using pickup_time_whole [of 0] by simp
  have n: "is_night 0" by (simp add: is_night_def)
  have i: "input_data (Finite (1 / 2)) 2 (Finite 0) True 6 =
           Inr [[Finite (1 / 2), Finite 2, Finite 0, Finite 1, Finite 6]]"
    using input_data_exact [of 2 6 "Finite (1 / 2)" "Finite 0" True] by simp
  show ?thesis by (simp add: h t n i derive_def features_def)
qed

section \<open>Failure of the derivation\<close>

text \<open>
  Claim C4, as stated, fails: the script checks no range, so an input outside the
  widget ranges is not rejected. Hour 13 with PM is outside the range of the hour and
  the derivation succeeds, with hour 25 and the night flag set.
\<close>

theorem no_range_check_counterexample:
  "\<not> widget_range \<lparr>passenger_count = 1, trip_distance = Finite 5, trip_duration = 15,
                    pickup_hour_12 = 13, pickup_minute = 0, am_pm = ''PM''\<rparr> \<and>
   features \<lparr>passenger_count = 1, trip_distance = Finite 5, trip_duration = 15,
             pickup_hour_12 = 13, pickup_minute = 0, am_pm = ''PM''\<rparr> =
     Inr [[Finite 5, Finite 15, Finite 25, Finite 1, Finite 1]]"
  using hour_13_PM_features by (simp add: widget_range_def)

text \<open>
  Claim C4, amended. Within the widget ranges the derivation succeeds; the only
  exception it can raise is \<^verbatim>\<open>OverflowError\<close>, and only on inputs outside the widget
  ranges. Being outside the ranges is not by itself a failure.
\<close>

theorem features_failure:
  "(widget_range r \<longrightarrow> (\<exists>x. features r = Inr x)) \<and>
   (\<forall>e. features r = Inl e \<longrightarrow> e = OverflowError \<and> \<not> widget_range r)"
proof -
  have a: "\<exists>x. features r = Inr x" if "widget_range r"
    using features_in_range [OF that] by blast
  have b: "e = OverflowError \<and> \<not> widget_range r" if "features r = Inl e" for e
    using that a features_error by force
  from a b show ?thesis by blast
qed

theorem features_failure_witness:
  "widget_range \<lparr>passenger_count = 1, trip_distance = Finite 5, trip_duration = 15,
                 pickup_hour_12 = 11, pickup_minute = 0, am_pm = ''PM''\<rparr> \<and>
   (\<exists>x. features \<lparr>passenger_count = 1, trip_distance = Finite 5, trip_duration = 15,
                   pickup_hour_12 = 11, pickup_minute = 0, am_pm = ''PM''\<rparr> = Inr x)"
proof -
  let ?r = "\<lparr>passenger_count = 1, trip_distance = Finite 5, trip_duration = 15,
             pickup_hour_12 = 11, pickup_minute = 0, am_pm = ''PM''\<rparr>"
  have "Finite (of_nat 10 / 2) \<in> set distance_steps" by (rule distance_steps_mem) simp_all
  then have w: "widget_range ?r" by (simp add: widget_range_def)
  with features_failure [of ?r] show ?thesis by blast
qed

section \<open>The night flag and the minute\<close>

text \<open>
  Claim C7. Two requests within the widget ranges that agree on the hour and the
  meridiem get the same 24-hour value and the same night flag, whatever their minutes.
  A pickup at 5:59 AM is night and one at 6:00 AM is not.
\<close>

theorem night_ignores_minute:
  assumes "widget_range r1" and "widget_range r2"
    and "pickup_hour_12 r1 = pickup_hour_12 r2" and "am_pm r1 = am_pm r2"
  shows "(\<exists>h t1 t2 n. derive r1 = Inr (h, t1, n) \<and> derive r2 = Inr (h, t2, n) \<and> n = is_night h) \<and>
         (\<exists>t. derive (r1\<lparr>pickup_hour_12 := 5, pickup_minute := 59, am_pm := ''AM''\<rparr>) =
                 Inr (5, Finite t, True)) \<and>
         derive (r1\<lparr>pickup_hour_12 := 6, pickup_minute := 0, am_pm := ''AM''\<rparr>) =
           Inr (6, Finite 6, False)"
proof -
  have a: "\<exists>h t1 t2 n. derive r1 = Inr (h, t1, n) \<and> derive r2 = Inr (h, t2, n) \<and> n = is_night h"
    using derive_in_range [OF assms(1)] derive_in_range [OF assms(2)] assms(3,4) by auto
  have "\<exists>t. pickup_time 5 59 = Inr (Finite t)" using pickup_time_bounds [of 5 59] by auto
  then have b: "\<exists>t. derive (r1\<lparr>pickup_hour_12 := 5, pickup_minute := 59, am_pm := ''AM''\<rparr>) =
                 Inr (5, Finite t, True)"
    by (auto simp: derive_def pickup_hour_24_def is_night_def)
  have "pickup_time 6 0 = Inr (Finite 6)" using pickup_time_whole [of 6] by simp
  then have c: "derive (r1\<lparr>pickup_hour_12 := 6, pickup_minute := 0, am_pm := ''AM''\<rparr>) =
           Inr (6, Finite 6, False)"
    by (simp add: derive_def pickup_hour_24_def is_night_def)
  from a b c show ?thesis by blast
qed

theorem night_ignores_minute_witness:
  "\<exists>t1 t2. derive \<lparr>passenger_count = 1, trip_distance = Finite 5, trip_duration = 15,
                    pickup_hour_12 = 5, pickup_minute = 0, am_pm = ''AM''\<rparr> = Inr (5, t1, True) \<and>
           derive \<lparr>passenger_count = 1, trip_distance = Finite 5, trip_duration = 15,
                    pickup_hour_12 = 5, pickup_minute = 59, am_pm = ''AM''\<rparr> = Inr (5, t2, True)"
proof -
  let ?a = "\<lparr>passenger_count = 1, trip_distance = Finite 5, trip_duration = 15,
             pickup_hour_12 = 5, pickup_minute = 0, am_pm = ''AM''\<rparr>"
  let ?b = "\<lparr>passenger_count = 1, trip_distance = Finite 5, trip_duration = 15,
             pickup_hour_12 = 5, pickup_minute = 59, am_pm = ''AM''\<rparr>"
  have d: "Finite (of_nat 10 / 2) \<in> set distance_steps" by (rule distance_steps_mem) simp_all
  have wa: "widget_range ?a" using d by (simp add: widget_range_def)
  have wb: "widget_range ?b" using d by (simp add: widget_range_def)
  have "\<exists>h t1 t2 n. derive ?a = Inr (h, t1, n) \<and> derive ?b = Inr (h, t2, n) \<and> n = is_night h"
    using night_ignores_minute [OF wa wb] by simp
  then obtain h t1 t2 n where x: "derive ?a = Inr (h, t1, n)" "derive ?b = Inr (h, t2, n)"
      "n = is_night h" by blast
  have "h = 5" using x(1) by (auto simp: derive_def pickup_hour_24_def Let_def split: sum.splits)
  then have "n = True" using x(3) by (simp add: is_night_def)
  with x(1,2) \<open>h = 5\<close> show ?thesis by simp
qed

section \<open>The readiness check\<close>

text \<open>
  Claim C9. In a run that reaches the button with the button pressed, the first call
  on the model is \<^verbatim>\<open>check_is_fitted\<close>; a \<^verbatim>\<open>predict\<close> call, if any, comes after it, on a
  fitted model, with the feature array. When the model is not fitted the run ends with
  \<^verbatim>\<open>NotFittedError\<close> and no \<^verbatim>\<open>predict\<close> call is made.
\<close>

theorem fitted_check_first:
  assumes "derive r = Inr d"
  shows "(fst (run m r True) = [CheckIsFitted] \<or>
          (\<exists>x. fst (run m r True) = [CheckIsFitted, Predict x] \<and> fitted m \<and>
                features r = Inr x)) \<and>
         (\<not> fitted m \<longrightarrow> run m r True = ([CheckIsFitted], Inl NotFittedError))"
proof -
  obtain h t n where d: "derive r = Inr (h, t, n)" using assms by (cases d) auto
  show ?thesis
    by (auto simp: run_def features_def d split: sum.splits list.splits)
qed

theorem fitted_check_first_witness:
  "run \<lparr>fitted = False, predict = (\<lambda>x. Inr [Finite 1])\<rparr>
       \<lparr>passenger_count = 1, trip_distance = Finite 5, trip_duration = 15,
        pickup_hour_12 = 11, pickup_minute = 0, am_pm = ''PM''\<rparr> True =
     ([CheckIsFitted], Inl NotFittedError)"
proof -
  let ?r = "\<lparr>passenger_count = 1, trip_distance = Finite 5, trip_duration = 15,
             pickup_hour_12 = 11, pickup_minute = 0, am_pm = ''PM''\<rparr>"
  let ?m = "\<lparr>fitted = False, predict = (\<lambda>x. Inr [Finite 1])\<rparr>"
  have "pickup_time 23 0 = Inr (Finite 23)" using pickup_time_whole [of 23] by simp
  then have "derive ?r = Inr (23, Finite 23, True)"
    by (simp add: derive_def pickup_hour_24_def is_night_def)
  from fitted_check_first [OF this, of ?m] show ?thesis by simp
qed

section \<open>Inputs outside the widget ranges\<close>

text \<open>
  Claim C10, as stated, fails: the derivation is not total over all integers. The hour
  conversion itself returns \<open>2 ^ 1024 + 12\<close> for hour \<open>2 ^ 1024\<close> with PM, but that
  integer is too large for a float and line 173 raises \<^verbatim>\<open>OverflowError\<close>.
\<close>

theorem huge_hour_counterexample:
  "pickup_hour_24 ''PM'' (2 ^ 1024) = 2 ^ 1024 + 12 \<and>
   derive \<lparr>passenger_count = 1, trip_distance = Finite 5, trip_duration = 15,
           pickup_hour_12 = 2 ^ 1024, pickup_minute = 0, am_pm = ''PM''\<rparr> =
     Inl OverflowError \<and>
   features \<lparr>passenger_count = 1, trip_distance = Finite 5, trip_duration = 15,
             pickup_hour_12 = 2 ^ 1024, pickup_minute = 0, am_pm = ''PM''\<rparr> =
     Inl OverflowError"
  by (rule huge_hour_overflow) simp_all

text \<open>
  Claim C10, amended. The script checks no range: whenever the four integer inputs
  have magnitude at most \<open>2 ^ 1000\<close>, in or out of the widget ranges, the hour
  conversion, the fractional hour, the night flag and the row of five floats are all
  computed without an exception. Hour 13 with PM gives hour 25.
\<close>

theorem derivation_unchecked:
  assumes "\<bar>pickup_hour_12 r\<bar> \<le> 2 ^ 1000" and "\<bar>pickup_minute r\<bar> \<le> 2 ^ 1000"
    and "\<bar>trip_duration r\<bar> \<le> 2 ^ 1000" and "\<bar>passenger_count r\<bar> \<le> 2 ^ 1000"
  shows "(\<exists>t du pa.
            derive r = Inr (pickup_hour_24 (am_pm r) (pickup_hour_12 r), t,
                             is_night (pickup_hour_24 (am_pm r) (pickup_hour_12 r))) \<and>
            pickup_time (pickup_hour_24 (am_pm r) (pickup_hour_12 r)) (pickup_minute r) = Inr t \<and>
            features r =
              Inr [[trip_distance r, du, t,
                    Finite (if is_night (pickup_hour_24 (am_pm r) (pickup_hour_12 r)) then 1 else 0),
                    pa]]) \<and>
         pickup_hour_24 ''PM'' 13 = 25"
proof -
  define h where "h = pickup_hour_24 (am_pm r) (pickup_hour_12 r)"
  obtain t where t: "derive r = Inr (h, t, is_night h)"
    using derive_total [OF assms(1,2)] unfolding h_def by blast
  then have p: "pickup_time h (pickup_minute r) = Inr t"
    by (auto simp: derive_def h_def Let_def split: sum.splits)
  obtain du pa where "input_data (trip_distance r) (trip_duration r) t (is_night h)
      (passenger_count r) =
      Inr [[trip_distance r, du, t, Finite (if is_night h then 1 else 0), pa]]"
    using input_data_total [OF assms(3,4)] by blast
  then have "features r = Inr [[trip_distance r, du, t, Finite (if is_night h then 1 else 0), pa]]"
    by (simp add: features_def t)
  moreover have "pickup_hour_24 ''PM'' 13 = 25" by (simp add: pickup_hour_24_def)
  ultimately show ?thesis using t p unfolding h_def by blast
qed

theorem derivation_unchecked_witness:
  "pickup_hour_24 ''PM'' 13 = 25 \<and>
   (\<exists>du pa. features \<lparr>passenger_count = 1, trip_distance = Finite 5, trip_duration = 15,
                       pickup_hour_12 = 13, pickup_minute = 0, am_pm = ''PM''\<rparr> =
              Inr [[Finite 5, du, Finite 25, Finite 1, pa]])"
proof -
  let ?r = "\<lparr>passenger_count = 1, trip_distance = Finite 5, trip_duration = 15,
             pickup_hour_12 = 13, pickup_minute = 0, am_pm = ''PM''\<rparr>"
  have t: "pickup_time 25 0 = Inr (Finite 25)" using pickup_time_whole [of 25] by simp
  have n: "is_night 25" by (simp add: is_night_def)
  have "(\<exists>t du pa. derive ?r = Inr (pickup_hour_24 (am_pm ?r) (pickup_hour_12 ?r), t,
                            is_night (pickup_hour_24 (am_pm ?r) (pickup_hour_12 ?r))) \<and>
           pickup_time (pickup_hour_24 (am_pm ?r) (pickup_hour_12 ?r)) (pickup_minute ?r) = Inr t \<and>
           features ?r =
             Inr [[trip_distance ?r, du, t,
                   Finite (if is_night (pickup_hour_24 (am_pm ?r) (pickup_hour_12 ?r)) then 1 else 0),
                   pa]]) \<and>
        pickup_hour_24 ''PM'' 13 = 25"
    by (rule derivation_unchecked) simp_all
  then show ?thesis by (auto simp: t n)
qed

end
